theory Spec2Isabelle
  imports Main "HOL-Library.Sublist" "HOL-Library.Multiset" "HOL-Library.AList"
begin

section \<open>Python strings\<close>

text \<open>
  A Python \<^verbatim>\<open>str\<close> is a sequence of Unicode code points; it is modelled as the list of
  its code points. \<open>str_of\<close> reads an ASCII literal.
\<close>

type_synonym pystr = "nat list"

definition str_of :: "string \<Rightarrow> pystr" where
  "str_of s = map of_char s"

text \<open>The characters for which \<^verbatim>\<open>str.isspace\<close> holds (CPython's whitespace table).\<close>

definition isspace :: "nat \<Rightarrow> bool" where
  "isspace c \<longleftrightarrow>
     (9 \<le> c \<and> c \<le> 13) \<or> (28 \<le> c \<and> c \<le> 32) \<or> c = 133 \<or> c = 160 \<or> c = 5760 \<or>
     (8192 \<le> c \<and> c \<le> 8202) \<or> c = 8232 \<or> c = 8233 \<or> c = 8239 \<or> c = 8287 \<or> c = 12288"

text \<open>The line boundaries of \<^verbatim>\<open>str.splitlines\<close> (CPython's line-break table).\<close>

definition is_linebreak :: "nat \<Rightarrow> bool" where
  "is_linebreak c \<longleftrightarrow>
     (10 \<le> c \<and> c \<le> 13) \<or> (28 \<le> c \<and> c \<le> 30) \<or> c = 133 \<or> c = 8232 \<or> c = 8233"

text \<open>\<^verbatim>\<open>s.strip()\<close>: whitespace removed at both ends.\<close>

definition strip :: "pystr \<Rightarrow> pystr" where
  "strip s = rev (dropWhile isspace (rev (dropWhile isspace s)))"

text \<open>
  \<^verbatim>\<open>s.split()\<close>: skip whitespace, take the maximal run of non-whitespace characters as
  the next token, repeat until the string is used up.
\<close>

function split :: "pystr \<Rightarrow> pystr list" where
  "split s =
     (let s' = dropWhile isspace s
      in if s' = [] then []
         else takeWhile (\<lambda>c. \<not> isspace c) s' # split (dropWhile (\<lambda>c. \<not> isspace c) s'))"
  by pat_completeness auto
termination
proof (relation "measure length")
  fix s s' :: pystr
  assume s': "s' = dropWhile isspace s" and ne: "s' \<noteq> []"
  have "length (dropWhile (\<lambda>c. \<not> isspace c) s') < length s'"
  proof (cases s')
    case Nil
    with ne show ?thesis by simp
  next
    case (Cons c cs)
    from ne have "\<not> isspace (hd s')"
      unfolding s' by (rule hd_dropWhile)
    with Cons have "dropWhile (\<lambda>c. \<not> isspace c) s' = dropWhile (\<lambda>c. \<not> isspace c) cs"
      by simp
    moreover have "length (dropWhile (\<lambda>c. \<not> isspace c) cs) \<le> length cs"
      by (rule length_dropWhile_le)
    ultimately show ?thesis using Cons by simp
  qed
  moreover have "length s' \<le> length s"
    unfolding s' by (rule length_dropWhile_le)
  ultimately show "(dropWhile (\<lambda>c. \<not> isspace c) s', s) \<in> measure length"
    by simp
qed simp

declare split.simps [simp del]

text \<open>
  \<^verbatim>\<open>s.splitlines()\<close>: \<open>cur\<close> is the line read so far. A line ends at a line-break
  character, \<^verbatim>\<open>\r\n\<close> counting as one boundary; the boundary is not part of the line, and
  a boundary at the very end opens no further line.
\<close>

fun splitlines_from :: "pystr \<Rightarrow> pystr \<Rightarrow> pystr list" where
  "splitlines_from cur [] = (if cur = [] then [] else [cur])"
| "splitlines_from cur [c] = (if is_linebreak c then [cur] else [cur @ [c]])"
| "splitlines_from cur (c # d # cs) =
     (if c = 13 \<and> d = 10 then cur # splitlines_from [] cs
      else if is_linebreak c then cur # splitlines_from [] (d # cs)
      else splitlines_from (cur @ [c]) (d # cs))"

definition splitlines :: "pystr \<Rightarrow> pystr list" where
  "splitlines s = splitlines_from [] s"



text \<open>
  \<^verbatim>\<open>os.path.dirname\<close> (the POSIX implementation): the part of the path up to and
  including the last \<^verbatim>\<open>/\<close> (code point 47), with the trailing slashes removed unless
  that part consists of slashes only.
\<close>

definition dirname :: "pystr \<Rightarrow> pystr" where
  "dirname p =
     (let i = length p - length (takeWhile (\<lambda>c. c \<noteq> 47) (rev p));
          head = take i p
      in if head \<noteq> [] \<and> head \<noteq> replicate (length head) 47
         then rev (dropWhile (\<lambda>c. c = 47) (rev head))
         else head)"

section \<open>Exceptions, external commands and printed output\<close>

datatype py_exc = CalledProcessError int | OSError | IndexError

text \<open>
  What the operating system did with a command: it ran and exited with a return code and
  its captured standard output, or it could not be started (missing executable, missing
  working directory).
\<close>

datatype proc_outcome = Exited int pystr | NotStarted

text \<open>The system answers a command line run in a working directory.\<close>

type_synonym system = "pystr list \<Rightarrow> pystr \<Rightarrow> proc_outcome"

text \<open>
  \<^verbatim>\<open>subprocess.run(..., check=True)\<close>: a non-zero return code raises
  \<^verbatim>\<open>CalledProcessError\<close>, a command that cannot be started raises an \<^verbatim>\<open>OSError\<close>.
\<close>

definition subprocess_run :: "proc_outcome \<Rightarrow> py_exc + pystr" where
  "subprocess_run p =
     (case p of
        NotStarted \<Rightarrow> Inl OSError
      | Exited rc out \<Rightarrow> if rc \<noteq> 0 then Inl (CalledProcessError rc) else Inr out)"

text \<open>
  A line printed as \<^verbatim>\<open>print(f"<prefix>{e}")\<close>: the prefix and the exception whose text
  follows it.
\<close>

datatype printed = Print pystr py_exc

section \<open>get_git_commits\<close>

definition git_log_cmd :: "pystr list" where
  "git_log_cmd = [str_of ''git'', str_of ''log'', str_of ''--pretty=format:%h %p'']"

definition commits_error_prefix :: pystr where
  "commits_error_prefix =
     [1054, 1096, 1080, 1073, 1082, 1072, 32, 1087, 1088, 1080, 32, 1087, 1086, 1083, 1091,
      1095, 1077, 1085, 1080, 1080, 32, 1082, 1086, 1084, 1084, 1080, 1090, 1086, 1074, 58, 32]"

text \<open>
  The loop over the lines. \<^verbatim>\<open>parts[0]\<close> raises \<^verbatim>\<open>IndexError\<close> on an empty token
  list.
\<close>

fun parse_commits ::
  "pystr list \<Rightarrow> (pystr \<times> pystr list) list \<Rightarrow> py_exc + (pystr \<times> pystr list) list" where
  "parse_commits [] commits = Inr commits"
| "parse_commits (line # lines) commits =
     (let parts = split (strip line)
      in case parts of
           [] \<Rightarrow> Inl IndexError
         | commit_hash # _ \<Rightarrow>
             let parent_hashes = (if length parts > 1 then drop 1 parts else [])
             in parse_commits lines (commits @ [(commit_hash, parent_hashes)]))"

text \<open>
  The result is the printed lines and either the exception that leaves the function or
  the returned value. Only \<^verbatim>\<open>CalledProcessError\<close> is handled.
\<close>

definition get_git_commits ::
  "system \<Rightarrow> pystr \<Rightarrow> printed list \<times> (py_exc + (pystr \<times> pystr list) list)" where
  "get_git_commits sys repo_path =
     (let body =
        (case subprocess_run (sys git_log_cmd repo_path) of
           Inl e \<Rightarrow> Inl e
         | Inr stdout \<Rightarrow> parse_commits (splitlines stdout) [])
      in case body of
           Inl (CalledProcessError rc) \<Rightarrow>
             ([Print commits_error_prefix (CalledProcessError rc)], Inr [])
         | Inl e \<Rightarrow> ([], Inl e)
         | Inr commits \<Rightarrow> ([], Inr commits))"

section \<open>get_commit_diff\<close>

definition diff_tree_cmd :: "pystr \<Rightarrow> pystr list" where
  "diff_tree_cmd commit_hash =
     [str_of ''git'', str_of ''diff-tree'', str_of ''--no-commit-id'', str_of ''--name-only'',
      str_of ''-r'', commit_hash]"

definition diff_error_prefix :: "pystr \<Rightarrow> pystr" where
  "diff_error_prefix commit_hash =
     [1054, 1096, 1080, 1073, 1082, 1072, 32, 1087, 1088, 1080, 32, 1087, 1086, 1083, 1091,
      1095, 1077, 1085, 1080, 1080, 32, 1080, 1079, 1084, 1077, 1085, 1077, 1085, 1080, 1081,
      32, 1076, 1083, 1103, 32, 1082, 1086, 1084, 1084, 1080, 1090, 1072, 32]
     @ commit_hash @ [58, 32]"

text \<open>
  A Python set is kept as the list of its elements without repetition; \<open>set_add\<close>
  is \<^verbatim>\<open>s.add(x)\<close>. The order in which \<^verbatim>\<open>list(s)\<close> enumerates a set is not
  specified by the language: it is a parameter \<open>ord\<close> of the model, and
  \<open>valid_order\<close> says that it enumerates every element once.
\<close>

definition set_add :: "pystr \<Rightarrow> pystr list \<Rightarrow> pystr list" where
  "set_add x s = (if x \<in> set s then s else s @ [x])"

type_synonym set_order = "pystr list \<Rightarrow> pystr list"

definition valid_order :: "set_order \<Rightarrow> bool" where
  "valid_order ord \<longleftrightarrow> (\<forall>s. mset (ord s) = mset s)"

text \<open>The loop over the changed files, on the pair (folders, files).\<close>

fun collect_changes ::
  "pystr list \<Rightarrow> pystr list \<times> pystr list \<Rightarrow> pystr list \<times> pystr list" where
  "collect_changes [] (folders, files) = (folders, files)"
| "collect_changes (file # changed_files) (folders, files) =
     (let files' = set_add file files;
          folder = dirname file
      in collect_changes changed_files
           (if folder \<noteq> [] then set_add folder folders else folders, files'))"

definition get_commit_diff ::
  "set_order \<Rightarrow> system \<Rightarrow> pystr \<Rightarrow> pystr \<Rightarrow>
     printed list \<times> (py_exc + pystr list \<times> pystr list)" where
  "get_commit_diff ord sys repo_path commit_hash =
     (let body =
        (case subprocess_run (sys (diff_tree_cmd commit_hash) repo_path) of
           Inl e \<Rightarrow> Inl e
         | Inr stdout \<Rightarrow>
             (case collect_changes (splitlines (strip stdout)) ([], []) of
                (folders, files) \<Rightarrow> Inr (ord folders, ord files)))
      in case body of
           Inl (CalledProcessError rc) \<Rightarrow>
             ([Print (diff_error_prefix commit_hash) (CalledProcessError rc)], Inr ([], []))
         | Inl e \<Rightarrow> ([], Inl e)
         | Inr r \<Rightarrow> ([], Inr r))"

section \<open>generate_mermaid_graph\<close>

record commit_info =
  parents :: "pystr list"
  folders :: "pystr list"
  files :: "pystr list"

text \<open>
  \<^verbatim>\<open>commit_data\<close> is a dict: an association list in insertion order, where assigning
  to a key that is present replaces the value in place (\<open>AList.update\<close>).
\<close>

type_synonym commit_data = "(pystr \<times> commit_info) list"

text \<open>The first loop: one diff per entry of \<open>commits\<close>, stored under the commit id.\<close>

fun load_commit_data ::
  "set_order \<Rightarrow> system \<Rightarrow> pystr \<Rightarrow> (pystr \<times> pystr list) list \<Rightarrow> printed list \<Rightarrow> commit_data \<Rightarrow>
     printed list \<times> (py_exc + commit_data)" where
  "load_commit_data ord sys repo_path [] log cd = (log, Inr cd)"
| "load_commit_data ord sys repo_path ((commit_hash, parent_hashes) # commits) log cd =
     (case get_commit_diff ord sys repo_path commit_hash of
        (out, Inl e) \<Rightarrow> (log @ out, Inl e)
      | (out, Inr (fo, fi)) \<Rightarrow>
          load_commit_data ord sys repo_path commits (log @ out)
            (AList.update commit_hash \<lparr>parents = parent_hashes, folders = fo, files = fi\<rparr> cd))"










definition graph_header :: pystr where
  "graph_header = str_of ''graph TD'' @ [10]"


section \<open>generate_png_from_mermaid\<close>

text \<open>
  The file system maps a path to the content of the file there. The platform decides what
  cannot be read off the program: whether the scratch file can be opened and written
  (\<open>WriteFailed n\<close>: the write stopped after \<open>n\<close> characters), what the renderer does to
  the file system and how it ends, and whether a file may be removed.
\<close>

type_synonym filesystem = "pystr \<rightharpoonup> pystr"

datatype write_outcome = Written | OpenFailed | WriteFailed nat

record platform =
  open_write :: "filesystem \<Rightarrow> pystr \<Rightarrow> pystr \<Rightarrow> write_outcome"
  run_renderer :: "filesystem \<Rightarrow> pystr list \<Rightarrow> filesystem \<times> proc_outcome"
  may_remove :: "filesystem \<Rightarrow> pystr \<Rightarrow> bool"

definition temp_mmd :: pystr where
  "temp_mmd = str_of ''temp.mmd''"

definition png_error_prefix :: pystr where
  "png_error_prefix =
     [1054, 1096, 1080, 1073, 1082, 1072, 32, 1087, 1088, 1080, 32, 1089, 1086, 1079, 1076,
      1072, 1085, 1080, 1080, 32, 80, 78, 71, 58, 32]"

text \<open>\<^verbatim>\<open>with open(path, "w") as f: f.write(text)\<close>.\<close>

definition write_file ::
  "platform \<Rightarrow> filesystem \<Rightarrow> pystr \<Rightarrow> pystr \<Rightarrow> filesystem \<times> (py_exc + unit)" where
  "write_file pf fs path text =
     (case open_write pf fs path text of
        Written \<Rightarrow> (fs(path \<mapsto> text), Inr ())
      | OpenFailed \<Rightarrow> (fs, Inl OSError)
      | WriteFailed n \<Rightarrow> (fs(path \<mapsto> take n text), Inl OSError))"

definition os_path_exists :: "filesystem \<Rightarrow> pystr \<Rightarrow> bool" where
  "os_path_exists fs path \<longleftrightarrow> fs path \<noteq> None"

definition os_remove ::
  "platform \<Rightarrow> filesystem \<Rightarrow> pystr \<Rightarrow> filesystem \<times> (py_exc + unit)" where
  "os_remove pf fs path =
     (if fs path \<noteq> None \<and> may_remove pf fs path then (fs(path := None), Inr ())
      else (fs, Inl OSError))"

definition renderer_cmd :: "pystr \<Rightarrow> pystr \<Rightarrow> pystr list" where
  "renderer_cmd visualizer_path output_path =
     [visualizer_path, str_of ''-i'', temp_mmd, str_of ''-o'', output_path]"

text \<open>
  The \<^verbatim>\<open>try\<close> body, the handler for \<^verbatim>\<open>CalledProcessError\<close>, then the
  \<^verbatim>\<open>finally\<close> block, which runs on every path; an exception raised in it replaces
  the pending one. The result is the file system left behind, the printed lines, and the
  exception that leaves the function or \<open>()\<close>.
\<close>

definition generate_png_from_mermaid ::
  "platform \<Rightarrow> filesystem \<Rightarrow> pystr \<Rightarrow> pystr \<Rightarrow> pystr \<Rightarrow>
     filesystem \<times> printed list \<times> (py_exc + unit)" where
  "generate_png_from_mermaid pf fs mermaid_graph output_path visualizer_path =
     (let (fs1, body) =
            (case write_file pf fs temp_mmd mermaid_graph of
               (fs', Inl e) \<Rightarrow> (fs', Inl e)
             | (fs', Inr _) \<Rightarrow>
                 (case run_renderer pf fs' (renderer_cmd visualizer_path output_path) of
                    (fs'', p) \<Rightarrow>
                      (fs'', case subprocess_run p of Inl e \<Rightarrow> Inl e | Inr _ \<Rightarrow> Inr ())));
          (log, r) =
            (case body of
               Inl (CalledProcessError rc) \<Rightarrow>
                 ([Print png_error_prefix (CalledProcessError rc)], Inr ())
             | Inl e \<Rightarrow> ([], Inl e)
             | Inr _ \<Rightarrow> ([], Inr ()))
      in if os_path_exists fs1 temp_mmd
         then (case os_remove pf fs1 temp_mmd of
                 (fs2, Inl e) \<Rightarrow> (fs2, log, Inl e)
               | (fs2, Inr _) \<Rightarrow> (fs2, log, r))
         else (fs1, log, r))"

section \<open>Notions used by the properties\<close>







text \<open>The elements of a list in the order of their first occurrence.\<close>

fun first_occ :: "'a list \<Rightarrow> 'a list" where
  "first_occ [] = []"
| "first_occ (x # xs) = x # removeAll x (first_occ xs)"




definition git_printing :: "pystr \<Rightarrow> system" where
  "git_printing out cmd cwd = Exited 0 out"

definition repo :: pystr where
  "repo = str_of ''/path/to/repo''"

definition failing_renderer :: platform where
  "failing_renderer =
     \<lparr>open_write = (\<lambda>fs path text. Written),
      run_renderer = (\<lambda>fs cmd. (fs, Exited 1 [])),
      may_remove = (\<lambda>fs path. True)\<rparr>"



section \<open>Facts about the string operations\<close>

lemma split_Nil_iff: "split s = [] \<longleftrightarrow> (\<forall>c\<in>set s. isspace c)"
  by (subst split.simps) (simp add: Let_def dropWhile_eq_Nil_conv)

lemma split_lstrip: "split (dropWhile isspace s) = split s"
proof -
  have "split (dropWhile isspace s) =
     (let s' = dropWhile isspace (dropWhile isspace s)
      in if s' = [] then []
         else takeWhile (\<lambda>c. \<not> isspace c) s' # split (dropWhile (\<lambda>c. \<not> isspace c) s'))"
    by (rule split.simps)
  also have "\<dots> = (let s' = dropWhile isspace s
      in if s' = [] then []
         else takeWhile (\<lambda>c. \<not> isspace c) s' # split (dropWhile (\<lambda>c. \<not> isspace c) s'))"
    by (simp only: dropWhile_idem)
  also have "\<dots> = split s"
    by (rule split.simps [symmetric])
  finally show ?thesis .
qed

lemma split_append_spaces:
  "\<forall>c\<in>set ws. isspace c \<Longrightarrow> split (s @ ws) = split s"
proof (induction s rule: split.induct)
  case (1 s)
  define s' where "s' = dropWhile isspace s"
  show ?case
  proof (cases "s' = []")
    case True
    then have "\<forall>c\<in>set s. isspace c"
      by (simp add: s'_def dropWhile_eq_Nil_conv)
    with "1.prems" have "split (s @ ws) = []" "split s = []"
      by (auto simp: split_Nil_iff)
    then show ?thesis by simp
  next
    case False
    then have nall: "\<not> (\<forall>c\<in>set s. isspace c)"
      by (simp add: s'_def dropWhile_eq_Nil_conv)
    then have dw: "dropWhile isspace (s @ ws) = s' @ ws"
      by (auto simp: s'_def dropWhile_append)
    have ih: "split (dropWhile (\<lambda>c. \<not> isspace c) s' @ ws) = split (dropWhile (\<lambda>c. \<not> isspace c) s')"
      using "1.IH" [OF s'_def False "1.prems"] .
    have tw_ws: "takeWhile (\<lambda>c. \<not> isspace c) ws = []"
      using "1.prems" by (cases ws) auto
    have tw: "takeWhile (\<lambda>c. \<not> isspace c) (s' @ ws) = takeWhile (\<lambda>c. \<not> isspace c) s'"
    proof (cases "\<forall>c\<in>set s'. \<not> isspace c")
      case True
      then have "takeWhile (\<lambda>c. \<not> isspace c) (s' @ ws) = s' @ takeWhile (\<lambda>c. \<not> isspace c) ws"
        by (simp add: takeWhile_append)
      moreover from True have "takeWhile (\<lambda>c. \<not> isspace c) s' = s'"
        by simp
      ultimately show ?thesis by (simp only: tw_ws append_Nil2)
    next
      case False
      then show ?thesis by (auto simp: takeWhile_append)
    qed
    have dw2: "split (dropWhile (\<lambda>c. \<not> isspace c) (s' @ ws)) = split (dropWhile (\<lambda>c. \<not> isspace c) s' @ ws)"
    proof (cases "\<forall>c\<in>set s'. \<not> isspace c")
      case True
      then have a: "dropWhile (\<lambda>c. \<not> isspace c) (s' @ ws) = dropWhile (\<lambda>c. \<not> isspace c) ws"
        by (simp add: dropWhile_append)
      have b: "dropWhile (\<lambda>c. \<not> isspace c) s' = []"
        using True by simp
      have c: "split (dropWhile (\<lambda>c. \<not> isspace c) ws) = []"
        using "1.prems" by (auto simp: split_Nil_iff dest: set_dropWhileD)
      have d: "split ws = []"
        using "1.prems" by (simp add: split_Nil_iff)
      show ?thesis by (simp only: a b c d append_Nil)
    next
      case False
      then show ?thesis by (auto simp: dropWhile_append)
    qed
    have "split (s @ ws) =
      (let t = dropWhile isspace (s @ ws)
       in if t = [] then []
          else takeWhile (\<lambda>c. \<not> isspace c) t # split (dropWhile (\<lambda>c. \<not> isspace c) t))"
      by (rule split.simps)
    also have "\<dots> = takeWhile (\<lambda>c. \<not> isspace c) s' # split (dropWhile (\<lambda>c. \<not> isspace c) s' @ ws)"
      using False by (simp add: Let_def dw tw dw2)
    also have "\<dots> = takeWhile (\<lambda>c. \<not> isspace c) s' # split (dropWhile (\<lambda>c. \<not> isspace c) s')"
      by (simp only: ih)
    also have "\<dots> = (let t = dropWhile isspace s
       in if t = [] then []
          else takeWhile (\<lambda>c. \<not> isspace c) t # split (dropWhile (\<lambda>c. \<not> isspace c) t))"
      using False by (simp add: Let_def s'_def)
    also have "\<dots> = split s"
      by (rule split.simps [symmetric])
    finally show ?thesis .
  qed
qed


lemma rstrip_decomp: "rev (dropWhile P (rev s)) @ rev (takeWhile P (rev s)) = s"
proof -
  have "rev (dropWhile P (rev s)) @ rev (takeWhile P (rev s)) = rev (takeWhile P (rev s) @ dropWhile P (rev s))"
    by (simp only: rev_append)
  also have "\<dots> = s" by simp
  finally show ?thesis .
qed

lemma split_rstrip: "split (rev (dropWhile isspace (rev s))) = split s"
proof -
  have "\<forall>c\<in>set (rev (takeWhile isspace (rev s))). isspace c"
    by (auto dest: set_takeWhileD)
  then have "split (rev (dropWhile isspace (rev s)) @ rev (takeWhile isspace (rev s))) = split (rev (dropWhile isspace (rev s)))"
    by (rule split_append_spaces)
  then show ?thesis by (simp only: rstrip_decomp)
qed

lemma split_strip: "split (strip s) = split s"
  by (simp add: strip_def split_rstrip split_lstrip)

text \<open>Every token of \<open>split\<close> is non-empty and free of whitespace.\<close>

lemma split_tokens: "t \<in> set (split s) \<Longrightarrow> t \<noteq> [] \<and> (\<forall>c\<in>set t. \<not> isspace c)"
proof (induction s rule: split.induct)
  case (1 s)
  define s' where "s' = dropWhile isspace s"
  have unf: "split s = (if s' = [] then []
      else takeWhile (\<lambda>c. \<not> isspace c) s' # split (dropWhile (\<lambda>c. \<not> isspace c) s'))"
    unfolding s'_def by (subst split.simps) (simp only: Let_def)
  from "1.prems" unf have ne: "s' \<noteq> []"
    by (cases "s' = []") simp_all
  with "1.prems" unf have "t = takeWhile (\<lambda>c. \<not> isspace c) s' \<or>
      t \<in> set (split (dropWhile (\<lambda>c. \<not> isspace c) s'))"
    by simp
  then show ?case
  proof
    assume t: "t = takeWhile (\<lambda>c. \<not> isspace c) s'"
    from ne have "\<not> isspace (hd s')" unfolding s'_def by (rule hd_dropWhile)
    with ne have "t \<noteq> []" unfolding t by (cases s') simp_all
    moreover have "\<forall>c\<in>set t. \<not> isspace c"
      unfolding t by (blast dest: set_takeWhileD)
    ultimately show ?thesis by simp
  next
    assume "t \<in> set (split (dropWhile (\<lambda>c. \<not> isspace c) s'))"
    with "1.IH" [OF s'_def ne] show ?thesis .
  qed
qed

section \<open>Properties of get_git_commits\<close>

lemma parse_commits_ok:
  "\<forall>l\<in>set lines. split l \<noteq> [] \<Longrightarrow>
   parse_commits lines acc = Inr (acc @ map (\<lambda>l. (hd (split l), tl (split l))) lines)"
proof (induction lines arbitrary: acc)
  case Nil
  then show ?case by simp
next
  case (Cons l lines)
  then obtain t ts where "split l = t # ts" by (cases "split l") auto
  with Cons show ?case
    by (simp add: split_strip Let_def drop_Suc)
qed

lemma parse_commits_blank:
  "l \<in> set lines \<Longrightarrow> split l = [] \<Longrightarrow> parse_commits lines acc = Inl IndexError"
proof (induction lines arbitrary: acc)
  case Nil
  then show ?case by simp
next
  case (Cons x lines)
  show ?case
  proof (cases "split x")
    case Nil
    then show ?thesis by (simp add: split_strip)
  next
    case (Cons t ts)
    with Cons.prems have "l \<in> set lines" by auto
    with Cons.IH Cons.prems Cons show ?thesis
      by (simp add: split_strip Let_def)
  qed
qed

text \<open>
  C9. Whenever the log command succeeds and its output has an empty or whitespace-only
  line, \<open>get_git_commits\<close> does not return a commit list: taking the first token of the
  empty token list raises \<^verbatim>\<open>IndexError\<close>, which is not handled and leaves the function.
\<close>

theorem blank_line_raises_IndexError:
  assumes "sys git_log_cmd repo_path = Exited 0 out"
    and "l \<in> set (splitlines out)"
    and "\<forall>c\<in>set l. isspace c"
  shows "get_git_commits sys repo_path = ([], Inl IndexError)"
proof -
  from assms(3) have "split l = []"
    by (simp add: split_Nil_iff)
  with assms(2) have "parse_commits (splitlines out) [] = Inl IndexError"
    by (rule parse_commits_blank)
  with assms(1) show ?thesis
    by (simp add: get_git_commits_def subprocess_run_def)
qed

theorem blank_line_raises_IndexError_witness:
  "str_of '' '' \<in> set (splitlines (str_of ''abc123\<newline> \<newline>abc122\<newline>'')) \<and>
   get_git_commits (git_printing (str_of ''abc123\<newline> \<newline>abc122\<newline>'')) repo
     = ([], Inl IndexError)"
proof -
  have lines: "splitlines (str_of ''abc123\<newline> \<newline>abc122\<newline>'')
      = [str_of ''abc123'', str_of '' '', str_of ''abc122'']"
    by (simp add: str_of_def splitlines_def is_linebreak_def)
  have mem: "str_of '' '' \<in> set (splitlines (str_of ''abc123\<newline> \<newline>abc122\<newline>''))"
    by (simp add: lines)
  have blank: "\<forall>c\<in>set (str_of '' ''). isspace c"
    by (simp add: str_of_def isspace_def)
  have run: "git_printing (str_of ''abc123\<newline> \<newline>abc122\<newline>'') git_log_cmd repo
      = Exited 0 (str_of ''abc123\<newline> \<newline>abc122\<newline>'')"
    by (simp add: git_printing_def)
  from blank_line_raises_IndexError
      [where sys = "git_printing (str_of ''abc123\<newline> \<newline>abc122\<newline>'')"
         and repo_path = repo and l = "str_of '' ''", OF run mem blank] mem
  show ?thesis
    by simp
qed

text \<open>
  C2, as stated, fails: on the output \<^verbatim>\<open>"abc123\n\ndef456\n"\<close>, whose second line is
  empty, no list of pairs is returned.
\<close>

theorem commits_per_line_counterexample:
  "get_git_commits (git_printing (str_of ''abc123\<newline>\<newline>def456\<newline>'')) repo
     = ([], Inl IndexError)"
proof -
  have lines: "splitlines (str_of ''abc123\<newline>\<newline>def456\<newline>'')
      = [str_of ''abc123'', [], str_of ''def456'']"
    by (simp add: str_of_def splitlines_def is_linebreak_def)
  have "split [] = []"
    by (simp add: split_Nil_iff)
  then have "parse_commits (splitlines (str_of ''abc123\<newline>\<newline>def456\<newline>'')) [] = Inl IndexError"
    by (intro parse_commits_blank [of "[]"]) (simp_all add: lines)
  then show ?thesis
    by (simp add: get_git_commits_def subprocess_run_def git_printing_def)
qed

text \<open>
  C2, amended. When the log command succeeds and every line of its output has a character
  that is not whitespace, \<open>get_git_commits\<close> prints nothing and returns one pair per line,
  in the order of the lines: the first whitespace-separated token of the line, and the list
  of the remaining tokens (empty when the line has one token).
\<close>

theorem commits_one_pair_per_line:
  assumes "sys git_log_cmd repo_path = Exited 0 out"
    and "\<forall>l\<in>set (splitlines out). \<exists>c\<in>set l. \<not> isspace c"
  shows "get_git_commits sys repo_path
     = ([], Inr (map (\<lambda>l. (hd (split l), tl (split l))) (splitlines out)))"
proof -
  from assms(2) have "\<forall>l\<in>set (splitlines out). split l \<noteq> []"
    by (auto simp: split_Nil_iff)
  then have "parse_commits (splitlines out) []
      = Inr ([] @ map (\<lambda>l. (hd (split l), tl (split l))) (splitlines out))"
    by (rule parse_commits_ok)
  with assms(1) show ?thesis
    by (simp add: get_git_commits_def subprocess_run_def)
qed

theorem commits_one_pair_per_line_witness:
  "get_git_commits (git_printing (str_of ''abc123 def456\<newline>def456\<newline>'')) repo
     = ([], Inr [(str_of ''abc123'', [str_of ''def456'']), (str_of ''def456'', [])])"
proof -
  have lines: "splitlines (str_of ''abc123 def456\<newline>def456\<newline>'')
      = [str_of ''abc123 def456'', str_of ''def456'']"
    by (simp add: str_of_def splitlines_def is_linebreak_def)
  have t1: "split (str_of ''abc123 def456'') = [str_of ''abc123'', str_of ''def456'']"
    by (simp add: str_of_def split.simps isspace_def)
  have t2: "split (str_of ''def456'') = [str_of ''def456'']"
    by (simp add: str_of_def split.simps isspace_def)
  have nonblank: "\<forall>l\<in>set (splitlines (str_of ''abc123 def456\<newline>def456\<newline>'')). \<exists>c\<in>set l. \<not> isspace c"
    unfolding lines by (simp add: str_of_def isspace_def)
  have run: "git_printing (str_of ''abc123 def456\<newline>def456\<newline>'') git_log_cmd repo
      = Exited 0 (str_of ''abc123 def456\<newline>def456\<newline>'')"
    by (simp add: git_printing_def)
  from commits_one_pair_per_line
      [where sys = "git_printing (str_of ''abc123 def456\<newline>def456\<newline>'')"
         and repo_path = repo, OF run nonblank]
  show ?thesis
    by (simp add: lines t1 t2)
qed

section \<open>Failure of the external command\<close>




section \<open>Properties of get_commit_diff\<close>

lemma set_add_set: "set (set_add x s) = insert x (set s)"
  by (auto simp: set_add_def)

lemma set_add_distinct: "distinct s \<Longrightarrow> distinct (set_add x s)"
  by (simp add: set_add_def)

lemma collect_changes_inv:
  "collect_changes changed (fo, fi) = (fo', fi') \<Longrightarrow>
   distinct fo \<Longrightarrow> distinct fi \<Longrightarrow>
   \<forall>d\<in>set fo. d \<noteq> [] \<and> (\<exists>f\<in>set fi. d = dirname f) \<Longrightarrow>
   distinct fo' \<and> distinct fi' \<and> (\<forall>d\<in>set fo'. d \<noteq> [] \<and> (\<exists>f\<in>set fi'. d = dirname f))"
proof (induction changed arbitrary: fo fi)
  case Nil
  then show ?case by simp
next
  case (Cons f changed)
  let ?fi = "set_add f fi"
  let ?fo = "if dirname f \<noteq> [] then set_add (dirname f) fo else fo"
  from Cons.prems(1) have step: "collect_changes changed (?fo, ?fi) = (fo', fi')"
    by (simp add: Let_def)
  have d1: "distinct ?fo"
    using Cons.prems(2) by (simp add: set_add_distinct)
  have d2: "distinct ?fi"
    using Cons.prems(3) by (simp add: set_add_distinct)
  have d3: "\<forall>d\<in>set ?fo. d \<noteq> [] \<and> (\<exists>f\<in>set ?fi. d = dirname f)"
    using Cons.prems(4) by (auto simp: set_add_set)
  from Cons.IH [OF step d1 d2 d3] show ?case .
qed

lemma collect_changes_files:
  "collect_changes changed (fo, fi) = (fo', fi') \<Longrightarrow> set fi' = set fi \<union> set changed"
proof (induction changed arbitrary: fo fi)
  case Nil
  then show ?case by simp
next
  case (Cons f changed)
  from Cons.prems have "collect_changes changed
      (if dirname f \<noteq> [] then set_add (dirname f) fo else fo, set_add f fi) = (fo', fi')"
    by (simp add: Let_def)
  from Cons.IH [OF this] show ?case
    by (simp add: set_add_set)
qed

lemma valid_order_set: "valid_order ord \<Longrightarrow> set (ord s) = set s"
  by (metis valid_order_def set_mset_mset)

lemma valid_order_distinct: "valid_order ord \<Longrightarrow> distinct (ord s) = distinct s"
  by (metis valid_order_def mset_eq_imp_distinct_iff)

lemma valid_order_rev: "valid_order rev"
  by (simp add: valid_order_def)

lemma dirname_ex1: "dirname (str_of ''src/main.py'') = str_of ''src''"
  by (simp add: dirname_def str_of_def Let_def)

lemma dirname_ex2: "dirname (str_of ''src/utils/helper.py'') = str_of ''src/utils''"
  by (simp add: dirname_def str_of_def Let_def)

lemma diff_lines_ex:
  "splitlines (strip (str_of ''src/main.py\<newline>src/utils/helper.py\<newline>''))
     = [str_of ''src/main.py'', str_of ''src/utils/helper.py'']"
  by (simp add: strip_def str_of_def isspace_def splitlines_def is_linebreak_def)

text \<open>
  C8. Whatever the diff command did, when \<open>get_commit_diff\<close> returns, neither sequence has
  a repeated entry, and every entry of the directory sequence is a non-empty string that is
  the parent directory (\<open>dirname\<close>) of some entry of the file sequence.
\<close>

theorem diff_sequences_distinct_dirs_of_files:
  assumes "valid_order ord"
    and "get_commit_diff ord sys repo_path commit_hash = (log, Inr (dirs, paths))"
  shows "distinct dirs \<and> distinct paths \<and>
    (\<forall>d\<in>set dirs. d \<noteq> [] \<and> (\<exists>p\<in>set paths. d = dirname p))"
proof (cases "subprocess_run (sys (diff_tree_cmd commit_hash) repo_path)")
  case (Inl e)
  with assms(2) have "dirs = [] \<and> paths = []"
    by (cases e) (simp_all add: get_commit_diff_def)
  then show ?thesis by simp
next
  case (Inr stdout)
  obtain fo fi where cc: "collect_changes (splitlines (strip stdout)) ([], []) = (fo, fi)"
    by (cases "collect_changes (splitlines (strip stdout)) ([], [])") auto
  with Inr assms(2) have res: "dirs = ord fo" "paths = ord fi"
    by (simp_all add: get_commit_diff_def)
  from collect_changes_inv [OF cc]
  have inv: "distinct fo \<and> distinct fi \<and> (\<forall>d\<in>set fo. d \<noteq> [] \<and> (\<exists>f\<in>set fi. d = dirname f))"
    by simp
  with assms(1) show ?thesis
    by (simp add: res valid_order_set valid_order_distinct)
qed

theorem diff_sequences_distinct_dirs_of_files_witness:
  "valid_order rev \<and>
   get_commit_diff rev (git_printing (str_of ''src/main.py\<newline>src/utils/helper.py\<newline>'')) repo
       (str_of ''abc123'')
     = ([], Inr ([str_of ''src/utils'', str_of ''src''],
                 [str_of ''src/utils/helper.py'', str_of ''src/main.py''])) \<and>
   distinct [str_of ''src/utils'', str_of ''src''] \<and>
   distinct [str_of ''src/utils/helper.py'', str_of ''src/main.py''] \<and>
   str_of ''src/utils'' = dirname (str_of ''src/utils/helper.py'') \<and>
   str_of ''src'' = dirname (str_of ''src/main.py'')"
proof -
  have cc: "collect_changes [str_of ''src/main.py'', str_of ''src/utils/helper.py''] ([], [])
      = ([str_of ''src'', str_of ''src/utils''], [str_of ''src/main.py'', str_of ''src/utils/helper.py''])"
    by (simp add: dirname_ex1 dirname_ex2 set_add_def Let_def) (simp add: str_of_def)
  have run: "get_commit_diff rev (git_printing (str_of ''src/main.py\<newline>src/utils/helper.py\<newline>'')) repo
       (str_of ''abc123'')
     = ([], Inr ([str_of ''src/utils'', str_of ''src''],
                 [str_of ''src/utils/helper.py'', str_of ''src/main.py'']))"
    by (simp add: get_commit_diff_def git_printing_def subprocess_run_def diff_lines_ex cc
        del: collect_changes.simps)
  from diff_sequences_distinct_dirs_of_files [OF valid_order_rev run] run
  show ?thesis
    by (simp add: valid_order_rev dirname_ex1 dirname_ex2)
qed

text \<open>
  C3. On the diff output \<^verbatim>\<open>"src/main.py\nsrc/utils/helper.py\n"\<close>, whatever the order in
  which the two sets are enumerated, \<open>get_commit_diff\<close> prints nothing and returns a
  directory sequence with exactly the elements \<^verbatim>\<open>src\<close> and \<^verbatim>\<open>src/utils\<close> and a file
  sequence with exactly the elements \<^verbatim>\<open>src/main.py\<close> and \<^verbatim>\<open>src/utils/helper.py\<close>,
  each once.
\<close>

theorem diff_example_sets:
  assumes "valid_order ord"
    and "sys (diff_tree_cmd commit_hash) repo_path
           = Exited 0 (str_of ''src/main.py\<newline>src/utils/helper.py\<newline>'')"
  shows "\<exists>dirs paths.
    get_commit_diff ord sys repo_path commit_hash = ([], Inr (dirs, paths)) \<and>
    mset dirs = {#str_of ''src'', str_of ''src/utils''#} \<and>
    mset paths = {#str_of ''src/main.py'', str_of ''src/utils/helper.py''#} \<and>
    set dirs = {str_of ''src'', str_of ''src/utils''} \<and>
    set paths = {str_of ''src/main.py'', str_of ''src/utils/helper.py''}"
proof -
  have cc: "collect_changes [str_of ''src/main.py'', str_of ''src/utils/helper.py''] ([], [])
      = ([str_of ''src'', str_of ''src/utils''], [str_of ''src/main.py'', str_of ''src/utils/helper.py''])"
    by (simp add: dirname_ex1 dirname_ex2 set_add_def Let_def) (simp add: str_of_def)
  have run: "get_commit_diff ord sys repo_path commit_hash
     = ([], Inr (ord [str_of ''src'', str_of ''src/utils''],
                 ord [str_of ''src/main.py'', str_of ''src/utils/helper.py'']))"
    using assms(2) by (simp add: get_commit_diff_def subprocess_run_def diff_lines_ex cc
        del: collect_changes.simps)
  from assms(1) have m: "\<And>s. mset (ord s) = mset s"
    by (simp add: valid_order_def)
  show ?thesis
    unfolding run using valid_order_set [OF assms(1)] by (simp add: m)
qed

theorem diff_example_sets_witness:
  "valid_order rev \<and>
   (\<exists>dirs paths.
     get_commit_diff rev (git_printing (str_of ''src/main.py\<newline>src/utils/helper.py\<newline>'')) repo
         (str_of ''abc123'') = ([], Inr (dirs, paths)) \<and>
     mset dirs = {#str_of ''src'', str_of ''src/utils''#} \<and>
     mset paths = {#str_of ''src/main.py'', str_of ''src/utils/helper.py''#} \<and>
     set dirs = {str_of ''src'', str_of ''src/utils''} \<and>
     set paths = {str_of ''src/main.py'', str_of ''src/utils/helper.py''})"
proof -
  have run: "git_printing (str_of ''src/main.py\<newline>src/utils/helper.py\<newline>'')
       (diff_tree_cmd (str_of ''abc123'')) repo
     = Exited 0 (str_of ''src/main.py\<newline>src/utils/helper.py\<newline>'')"
    by (simp add: git_printing_def)
  from diff_example_sets
      [where sys = "git_printing (str_of ''src/main.py\<newline>src/utils/helper.py\<newline>'')"
         and ord = rev and repo_path = repo and commit_hash = "str_of ''abc123''",
       OF valid_order_rev run]
  show ?thesis
    using valid_order_rev by blast
qed

section \<open>Facts about the graph document\<close>











lemma distinct_first_occ: "distinct (first_occ xs)"
  by (induction xs) (auto simp: distinct_removeAll)


lemma load_commit_data_Cons:
  "load_commit_data ord sys repo_path ((h, ps) # rest) log cd = (log', Inr cd') \<Longrightarrow>
   \<exists>out fo fi. get_commit_diff ord sys repo_path h = (out, Inr (fo, fi)) \<and>
     load_commit_data ord sys repo_path rest (log @ out)
       (AList.update h \<lparr>parents = ps, folders = fo, files = fi\<rparr> cd) = (log', Inr cd')"
  by (auto split: prod.splits sum.splits)


lemma filter_removeAll_in:
  "h \<in> K \<Longrightarrow> filter (\<lambda>k. k \<notin> K) (removeAll h xs) = filter (\<lambda>k. k \<notin> K) xs"
  by (induction xs) auto

lemma filter_removeAll_notin:
  "filter (\<lambda>k. k \<notin> K) (removeAll h xs) = filter (\<lambda>k. k \<notin> insert h K) xs"
  by (induction xs) auto

lemma load_commit_data_keys:
  "load_commit_data ord sys repo_path commits log cd = (log', Inr cd') \<Longrightarrow>
   map fst cd' = map fst cd @ filter (\<lambda>k. k \<notin> set (map fst cd)) (first_occ (map fst commits))"
proof (induction commits arbitrary: log cd)
  case Nil
  then show ?case by simp
next
  case (Cons hp rest)
  obtain h ps where hp: "hp = (h, ps)" by (cases hp)
  from Cons.prems obtain out fo fi where
    step: "load_commit_data ord sys repo_path rest (log @ out)
       (AList.update h \<lparr>parents = ps, folders = fo, files = fi\<rparr> cd) = (log', Inr cd')"
    unfolding hp by (blast dest: load_commit_data_Cons)
  let ?cd1 = "AList.update h \<lparr>parents = ps, folders = fo, files = fi\<rparr> cd"
  note ih = Cons.IH [OF step]
  show ?case
  proof (cases "h \<in> set (map fst cd)")
    case True
    then have "map fst ?cd1 = map fst cd"
      by (simp add: update_keys)
    with ih True show ?thesis
      by (simp add: hp filter_removeAll_in)
  next
    case False
    then have "map fst ?cd1 = map fst cd @ [h]"
      by (simp add: update_keys)
    with ih False show ?thesis
      by (simp add: hp filter_removeAll_notin)
  qed
qed


lemma load_commit_data_distinct:
  "load_commit_data ord sys repo_path commits [] [] = (log', Inr cd') \<Longrightarrow> distinct (map fst cd')"
  by (drule load_commit_data_keys) (simp add: distinct_first_occ)


section \<open>Properties of generate_png_from_mermaid\<close>

text \<open>
  C6. Whatever happens to the write of the scratch file and to the renderer, the
  \<^verbatim>\<open>finally\<close> block runs: when \<open>generate_png_from_mermaid\<close> returns, \<^verbatim>\<open>temp.mmd\<close> does
  not exist in the file system it leaves; and whenever the platform lets the file be
  removed, it does not exist afterwards even if an exception leaves the function.
\<close>

theorem scratch_file_deleted:
  assumes "generate_png_from_mermaid pf fs mermaid_graph output_path visualizer_path = (fs', log, r)"
  shows "(r = Inr () \<longrightarrow> \<not> os_path_exists fs' temp_mmd) \<and>
    ((\<forall>fs0. may_remove pf fs0 temp_mmd) \<longrightarrow> \<not> os_path_exists fs' temp_mmd)"
proof -
  let ?attempt =
    "case write_file pf fs temp_mmd mermaid_graph of
       (fs', Inl e) \<Rightarrow> (fs', Inl e)
     | (fs', Inr _) \<Rightarrow>
         (case run_renderer pf fs' (renderer_cmd visualizer_path output_path) of
            (fs'', p) \<Rightarrow>
              (fs'', case subprocess_run p of Inl e \<Rightarrow> Inl e | Inr _ \<Rightarrow> Inr ()))"
  obtain fs1 body where t: "?attempt = (fs1, body)"
    by (cases ?attempt) auto
  let ?handled =
    "case body of
       Inl (CalledProcessError rc) \<Rightarrow> ([Print png_error_prefix (CalledProcessError rc)], Inr ())
     | Inl e \<Rightarrow> ([], Inl e)
     | Inr _ \<Rightarrow> ([], Inr ())"
  obtain lg r0 where h: "?handled = (lg, r0)"
    by (cases ?handled) auto
  have fin: "(fs', log, r) =
    (if os_path_exists fs1 temp_mmd
     then (case os_remove pf fs1 temp_mmd of
             (fs2, Inl e) \<Rightarrow> (fs2, lg, Inl e)
           | (fs2, Inr _) \<Rightarrow> (fs2, lg, r0))
     else (fs1, lg, r0))"
    using assms t h by (simp add: generate_png_from_mermaid_def)
  show ?thesis
  proof (cases "os_path_exists fs1 temp_mmd")
    case False
    with fin show ?thesis by simp
  next
    case True
    show ?thesis
    proof (cases "may_remove pf fs1 temp_mmd")
      case True
      with \<open>os_path_exists fs1 temp_mmd\<close> fin show ?thesis
        by (simp add: os_remove_def os_path_exists_def)
    next
      case False
      with \<open>os_path_exists fs1 temp_mmd\<close> fin show ?thesis
        by (auto simp: os_remove_def os_path_exists_def)
    qed
  qed
qed

theorem scratch_file_deleted_witness:
  "snd (snd (generate_png_from_mermaid failing_renderer Map.empty graph_header
        (str_of ''out.png'') (str_of ''mmdc''))) = Inr () \<and>
   \<not> os_path_exists (fst (generate_png_from_mermaid failing_renderer Map.empty graph_header
        (str_of ''out.png'') (str_of ''mmdc''))) temp_mmd"
proof -
  let ?run = "generate_png_from_mermaid failing_renderer Map.empty graph_header
        (str_of ''out.png'') (str_of ''mmdc'')"
  have returns: "snd (snd ?run) = Inr ()"
    by (simp add: generate_png_from_mermaid_def failing_renderer_def write_file_def
        subprocess_run_def os_path_exists_def os_remove_def)
  have "?run = (fst ?run, fst (snd ?run), snd (snd ?run))"
    by simp
  from scratch_file_deleted [OF this] returns show ?thesis
    by simp
qed





section \<open>Properties of generate_mermaid_graph\<close>





















end
